theory Spec2Isabelle
  imports Main "HOL-Library.Word" "HOL-Library.AList"
begin

section \<open>JavaScript values and plain objects\<close>

text \<open>
  The values that reach the code as category values, and the part of the language the
  code relies on: conversion of a value to a property key, the \<^verbatim>\<open>in\<close> operator and
  property reads on an object created by \<^verbatim>\<open>{}\<close>, and iteration with \<^verbatim>\<open>for ... of\<close>.
  Numbers are the integers that a Number holds exactly and prints in plain decimal
  (\<^verbatim>\<open>JNum n\<close> stands for the Number of value \<open>n\<close>); fractions, \<^verbatim>\<open>NaN\<close> and the
  infinities are left out, and so are symbols and objects other than arrays. Strings are
  ASCII.
\<close>

datatype jsval =
    JNum int
  | JStr string
  | JBool bool
  | JNull
  | JUndefined
  | JArr "jsval list"

datatype error = Error string | TypeError

function string_of_nat :: "nat \<Rightarrow> string" where
  "string_of_nat n =
     (if n < 10 then [''0123456789'' ! n]
      else string_of_nat (n div 10) @ [''0123456789'' ! (n mod 10)])"
  by pat_completeness auto
termination
  by (relation "measure (\<lambda>n. n)") auto

declare string_of_nat.simps [simp del]

fun join_comma :: "string list \<Rightarrow> string" where
  "join_comma [] = []"
| "join_comma [s] = s"
| "join_comma (s # t # rest) = s @ '','' @ join_comma (t # rest)"

text \<open>\<^verbatim>\<open>String(v)\<close>, which is also the property key \<^verbatim>\<open>obj[v]\<close> and \<^verbatim>\<open>v in obj\<close> use. An
  array is joined with commas, \<^verbatim>\<open>null\<close> and \<^verbatim>\<open>undefined\<close> elements printing as nothing.\<close>

fun ToString :: "jsval \<Rightarrow> string" where
  "ToString (JNum n) =
     (if n < 0 then CHR ''-'' # string_of_nat (nat (- n)) else string_of_nat (nat n))"
| "ToString (JStr s) = s"
| "ToString (JBool b) = (if b then ''true'' else ''false'')"
| "ToString JNull = ''null''"
| "ToString JUndefined = ''undefined''"
| "ToString (JArr xs) =
     join_comma (map (\<lambda>x. if x = JNull \<or> x = JUndefined then [] else ToString x) xs)"

text \<open>\<^verbatim>\<open>for (const x of v)\<close>: an array yields its elements, a string its characters, and
  any other value of the model is not iterable.\<close>

fun iterate :: "jsval \<Rightarrow> error + jsval list" where
  "iterate (JArr xs) = Inr xs"
| "iterate (JStr s) = Inr (map (\<lambda>c. JStr [c]) s)"
| "iterate _ = Inl TypeError"

text \<open>A plain object whose own properties hold numbers: the own properties as an
  association list, and the properties every such object inherits from
  \<^verbatim>\<open>Object.prototype\<close>.\<close>

type_synonym obj = "(string \<times> nat) list"

definition Object_prototype_keys :: "string list" where
  "Object_prototype_keys =
     [''constructor'', ''__defineGetter__'', ''__defineSetter__'', ''hasOwnProperty'',
      ''__lookupGetter__'', ''__lookupSetter__'', ''isPrototypeOf'',
      ''propertyIsEnumerable'', ''toString'', ''valueOf'', ''__proto__'',
      ''toLocaleString'']"

text \<open>What a property read gives: a number stored in the object, a member inherited from
  the prototype (a function or an object, never a number), or \<^verbatim>\<open>undefined\<close>.\<close>

datatype propval = Number nat | Inherited string | Undefined

definition Object_keys :: "obj \<Rightarrow> string list" where
  "Object_keys m = remdups (map fst m)"

definition has_property :: "string \<Rightarrow> obj \<Rightarrow> bool" where
  "has_property k m \<longleftrightarrow> k \<in> set (map fst m) \<or> k \<in> set Object_prototype_keys"

definition get_property :: "obj \<Rightarrow> string \<Rightarrow> propval" where
  "get_property m k =
     (case map_of m k of
        Some v \<Rightarrow> Number v
      | None \<Rightarrow> if k \<in> set Object_prototype_keys then Inherited k else Undefined)"

section \<open>DataFilterExtension\<close>

subsection \<open>Options and constructor\<close>

definition DATA_TYPE_FROM_SIZE :: "int \<Rightarrow> string option" where
  "DATA_TYPE_FROM_SIZE =
     map_of [(1, ''float''), (2, ''vec2''), (3, ''vec3''), (4, ''vec4'')]"

text \<open>Truthiness of a property read that gives a string or \<^verbatim>\<open>undefined\<close>.\<close>

definition truthy :: "string option \<Rightarrow> bool" where
  "truthy v = (case v of None \<Rightarrow> False | Some s \<Rightarrow> s \<noteq> [])"

record DataFilterExtensionOptions =
  categorySize :: int
  filterSize :: int
  fp64 :: bool
  countItems :: bool

text \<open>The argument of the constructor: each option may be left out.\<close>

record PartialOptions =
  categorySize_arg :: "int option"
  filterSize_arg :: "int option"
  fp64_arg :: "bool option"
  countItems_arg :: "bool option"

text \<open>Modelled from the spec: the constructor of the base class \<^verbatim>\<open>LayerExtension\<close>, which
  is not part of the sources; it keeps the options it is given as the instance's
  \<^verbatim>\<open>opts\<close>, so the instance is represented by them.\<close>

definition LayerExtension :: "DataFilterExtensionOptions \<Rightarrow> DataFilterExtensionOptions" where
  "LayerExtension opts = opts"

text \<open>A destructured parameter with a default: the default stands in for a missing
  option.\<close>

definition with_default :: "'a \<Rightarrow> 'a option \<Rightarrow> 'a" where
  "with_default d v = (case v of None \<Rightarrow> d | Some x \<Rightarrow> x)"

definition DataFilterExtension :: "PartialOptions \<Rightarrow> error + DataFilterExtensionOptions" where
  "DataFilterExtension arg =
     (let cs = with_default 1 (categorySize_arg arg);
          fs = with_default 1 (filterSize_arg arg);
          fp = with_default False (fp64_arg arg);
          ci = with_default False (countItems_arg arg)
      in if \<not> truthy (DATA_TYPE_FROM_SIZE cs)
           then Inl (Error ''categorySize out of range'')
         else if \<not> truthy (DATA_TYPE_FROM_SIZE fs)
           then Inl (Error ''filterSize out of range'')
         else Inr (LayerExtension
                \<lparr>categorySize = cs, filterSize = fs, fp64 = fp, countItems = ci\<rparr>))"

text \<open>The constructor called with no argument: the parameter defaults to \<^verbatim>\<open>{}\<close>.\<close>

definition no_options :: PartialOptions where
  "no_options = \<lparr>categorySize_arg = None, filterSize_arg = None,
                 fp64_arg = None, countItems_arg = None\<rparr>"

subsection \<open>Layer state, category keys and draw\<close>

type_synonym gpu_handle = nat

text \<open>The part of the layer's state the extension uses; a field is \<^verbatim>\<open>None\<close> while it
  is not set.\<close>

record layer_state =
  categoryMap :: "obj option"
  filterFBO :: "gpu_handle option"
  filterModel :: "gpu_handle option"
  filterNeedsUpdate :: "bool option"

text \<open>The props read by \<^verbatim>\<open>draw\<close>. \<^verbatim>\<open>onFilteredItemsChange\<close> tells whether a callback is
  given; what it is called with is recorded as an event.\<close>

record layer_props =
  filterCategoryList :: "jsval list"
  onFilteredItemsChange :: bool

record layer =
  layer_id :: string
  props :: layer_props
  state :: layer_state

record filtered_items_event =
  evt_id :: string
  evt_count :: int

text \<open>\<^verbatim>\<open>_getCategoryKey\<close>: the value returned and the state afterwards.\<close>

definition getCategoryKey :: "layer_state \<Rightarrow> jsval \<Rightarrow> propval \<times> layer_state" where
  "getCategoryKey s category =
     (let m0 = (case categoryMap s of None \<Rightarrow> [] | Some m \<Rightarrow> m);
          k = ToString category;
          m1 = (if \<not> has_property k m0
                then AList.update k (length (Object_keys m0)) m0 else m0)
      in (get_property m1 k, s\<lparr>categoryMap := Some m1\<rparr>))"

text \<open>The own properties of the category map; none while the map is not created.\<close>

definition category_entries :: "layer_state \<Rightarrow> obj" where
  "category_entries s = (case categoryMap s of None \<Rightarrow> [] | Some m \<Rightarrow> m)"

text \<open>A sequence of calls on one layer: the values returned, in order, and the final
  state.\<close>

fun getCategoryKeys :: "layer_state \<Rightarrow> jsval list \<Rightarrow> propval list \<times> layer_state" where
  "getCategoryKeys s [] = ([], s)"
| "getCategoryKeys s (c # cs) =
     (let (r, s1) = getCategoryKey s c;
          (rs, s2) = getCategoryKeys s1 cs
      in (r # rs, s2))"

text \<open>The loop that sums the colour buffer read back from the framebuffer.\<close>

function count_loop :: "int list \<Rightarrow> nat \<Rightarrow> int \<Rightarrow> int" where
  "count_loop color i count =
     (if i < length color then count_loop color (i + 1) (count + color ! i) else count)"
  by pat_completeness auto
termination
  by (relation "measure (\<lambda>(color, i, count). length color - i)") auto

declare count_loop.simps [simp del]

definition maxCategories :: "int \<Rightarrow> nat" where
  "maxCategories sz = (if sz = 1 then 128 else if sz = 2 then 64 else 32)"

text \<open>\<^verbatim>\<open>categoryBitMask[channel] += Math.pow(2, key % 32)\<close> on a \<^verbatim>\<open>Uint32Array\<close>: the sum
  is stored modulo \<open>2 ^ 32\<close>, a write outside the array is dropped, and a key that is not
  a number gives the index \<^verbatim>\<open>NaN\<close>, which is outside the array.\<close>

definition add_category :: "nat \<Rightarrow> nat \<Rightarrow> propval \<Rightarrow> 32 word list \<Rightarrow> 32 word list" where
  "add_category c maxCat key categoryBitMask =
     (case key of
        Number k \<Rightarrow>
          (let channel = c * (maxCat div 32) + k div 32
           in if channel < length categoryBitMask
              then categoryBitMask[channel := categoryBitMask ! channel + 2 ^ (k mod 32)]
              else categoryBitMask)
      | _ \<Rightarrow> categoryBitMask)"

fun category_loop ::
  "nat \<Rightarrow> nat \<Rightarrow> jsval list \<Rightarrow> layer_state \<times> 32 word list \<Rightarrow> layer_state \<times> 32 word list"
where
  "category_loop c maxCat [] (s, categoryBitMask) = (s, categoryBitMask)"
| "category_loop c maxCat (category # rest) (s, categoryBitMask) =
     (let (key, s1) = getCategoryKey s category
      in category_loop c maxCat rest (s1, add_category c maxCat key categoryBitMask))"

text \<open>The outer loop over the channel groups; a group that cannot be iterated throws, and
  the state reached so far stays.\<close>

fun group_loop ::
  "nat \<Rightarrow> nat \<Rightarrow> jsval list \<Rightarrow> layer_state \<times> 32 word list
     \<Rightarrow> layer_state \<times> (error + 32 word list)"
where
  "group_loop c maxCat [] (s, categoryBitMask) = (s, Inr categoryBitMask)"
| "group_loop c maxCat (categoryFilter # rest) (s, categoryBitMask) =
     (case iterate categoryFilter of
        Inl e \<Rightarrow> (s, Inl e)
      | Inr categories \<Rightarrow>
          group_loop (c + 1) maxCat rest
            (category_loop c maxCat categories (s, categoryBitMask)))"

text \<open>\<^verbatim>\<open>draw\<close>. The rendering into the framebuffer is the host's; \<open>color\<close> is what
  \<^verbatim>\<open>readPixelsToArray(filterFBO)\<close> returns in this call. The result is the layer afterwards,
  the events passed to \<^verbatim>\<open>onFilteredItemsChange\<close>, and either the error thrown or the
  value stored as the uniform \<^verbatim>\<open>filter_categoryBitMask\<close>.\<close>

definition draw ::
  "layer \<Rightarrow> int list \<Rightarrow> DataFilterExtensionOptions
     \<Rightarrow> layer \<times> filtered_items_event list \<times> (error + 32 word list)"
where
  "draw l color opts =
     (let st = state l;
          counting = (filterNeedsUpdate st = Some True \<and> onFilteredItemsChange (props l)
                      \<and> filterModel st \<noteq> None);
          evts = (if counting
                  then [\<lparr>evt_id = layer_id l, evt_count = count_loop color 0 0\<rparr>] else []);
          st1 = (if counting then st\<lparr>filterNeedsUpdate := Some False\<rparr> else st);
          categoryFilters = (if categorySize opts = 1
                             then [JArr (filterCategoryList (props l))]
                             else filterCategoryList (props l));
          (st2, res) = group_loop 0 (maxCategories (categorySize opts)) categoryFilters
                         (st1, [0, 0, 0, 0])
      in (l\<lparr>state := st2\<rparr>, evts, res))"

text \<open>A layer whose state has nothing set yet.\<close>

definition fresh_state :: layer_state where
  "fresh_state = \<lparr>categoryMap = None, filterFBO = None, filterModel = None,
                   filterNeedsUpdate = None\<rparr>"

section \<open>FullscreenWidget\<close>

type_synonym element = nat

record Canvas =
  parentElement :: "element option"

record Deck =
  canvas :: "Canvas option"

record FullscreenWidgetProps =
  props_id :: string
  props_viewId :: "string option"
  props_placement :: "string option"
  label :: "string option"

record FullscreenWidget =
  widget_id :: string
  widget_props :: FullscreenWidgetProps
  placement :: string
  viewId :: "string option"
  isFullscreen :: bool
  deck :: "Deck option"
  element :: "element option"

text \<open>\<^verbatim>\<open>a || b\<close> on an optional string: the empty string and a missing value are falsy.\<close>

definition or_else :: "string option \<Rightarrow> string \<Rightarrow> string" where
  "or_else a b = (case a of None \<Rightarrow> b | Some s \<Rightarrow> if s = [] then b else s)"

definition or_null :: "string option \<Rightarrow> string option" where
  "or_null a = (case a of None \<Rightarrow> None | Some s \<Rightarrow> if s = [] then None else Some s)"

definition new_FullscreenWidget :: "FullscreenWidgetProps \<Rightarrow> FullscreenWidget" where
  "new_FullscreenWidget p =
     \<lparr>widget_id = or_else (Some (props_id p)) ''fullscreen'',
      widget_props = p\<lparr>label := Some (or_else (label p) ''Toggle Fullscreen'')\<rparr>,
      placement = or_else (props_placement p) ''top-left'',
      viewId = or_null (props_viewId p),
      isFullscreen = False,
      deck = None,
      element = None\<rparr>"

text \<open>\<^verbatim>\<open>onAdd\<close>; \<open>widget\<close> is the element \<^verbatim>\<open>document.createElement('div')\<close> gives.\<close>

definition onAdd :: "Deck \<Rightarrow> element \<Rightarrow> FullscreenWidget \<Rightarrow> element \<times> FullscreenWidget" where
  "onAdd d widget w = (widget, w\<lparr>deck := Some d, element := Some widget\<rparr>)"

definition onRemove :: "FullscreenWidget \<Rightarrow> FullscreenWidget" where
  "onRemove w = w\<lparr>deck := None, element := None\<rparr>"

record document =
  fullscreenElement :: "element option"

text \<open>The calls made: the widget's two methods, and the platform's functions they reach.\<close>

datatype call =
    Widget_requestFullscreen
  | Widget_exitFullscreen
  | Element_requestFullscreen element
  | Document_exitFullscreen

datatype settled = Fulfilled | Rejected

text \<open>The two asynchronous methods: the calls they make, and the widget once the awaited
  promise has settled as \<open>r\<close>. With the optional chain cut short nothing is awaited.\<close>

definition requestFullscreen :: "settled \<Rightarrow> FullscreenWidget \<Rightarrow> call list \<times> FullscreenWidget" where
  "requestFullscreen r w =
     (case (case deck w of None \<Rightarrow> None
            | Some d \<Rightarrow> (case canvas d of None \<Rightarrow> None | Some c \<Rightarrow> parentElement c)) of
        None \<Rightarrow> ([Widget_requestFullscreen], w\<lparr>isFullscreen := True\<rparr>)
      | Some e \<Rightarrow>
          ([Widget_requestFullscreen, Element_requestFullscreen e],
           if r = Fulfilled then w\<lparr>isFullscreen := True\<rparr> else w))"

definition exitFullscreen :: "settled \<Rightarrow> FullscreenWidget \<Rightarrow> call list \<times> FullscreenWidget" where
  "exitFullscreen r w =
     ([Widget_exitFullscreen, Document_exitFullscreen],
      if r = Fulfilled then w\<lparr>isFullscreen := False\<rparr> else w)"

definition handleClick ::
  "document \<Rightarrow> settled \<Rightarrow> FullscreenWidget \<Rightarrow> call list \<times> FullscreenWidget" where
  "handleClick doc r w =
     (if fullscreenElement doc = None then requestFullscreen r w else exitFullscreen r w)"

text \<open>A widget attached to a deck whose canvas sits in element 7, as root element 3.\<close>

definition attached_widget :: FullscreenWidget where
  "attached_widget =
     snd (onAdd \<lparr>canvas = Some \<lparr>parentElement = Some 7\<rparr>\<rparr> 3
            (new_FullscreenWidget
               \<lparr>props_id = ''fs'', props_viewId = None, props_placement = None,
                label = None\<rparr>))"

section \<open>CartoVectorTableSource\<close>

record CartoVectorTableSourceOptions =
  tableName :: string
  columns :: "string list option"
  spatialDataColumn :: "string option"

text \<open>The url parameters; an optional key that is not set is \<^verbatim>\<open>None\<close>.\<close>

record UrlParameters =
  name :: string
  columns_param :: "string option"
  geo_column :: "string option"

text \<open>Modelled from the spec: the source-type tag. \<^verbatim>\<open>MAP_TYPES\<close> is declared outside the
  sources, which use its member \<^verbatim>\<open>TABLE\<close> only; the shared helper \<^verbatim>\<open>CartoBaseSource\<close>
  is the parameter \<open>base\<close> below.\<close>

datatype MAP_TYPES = TABLE | OTHER string

datatype format = tilejson | geojson

definition urlParameters :: "'a CartoVectorTableSourceOptions_scheme \<Rightarrow> UrlParameters" where
  "urlParameters options =
     (let p0 = \<lparr>name = tableName options, columns_param = None, geo_column = None\<rparr>;
          p1 = (case columns options of
                  None \<Rightarrow> p0
                | Some cs \<Rightarrow> p0\<lparr>columns_param := Some (join_comma cs)\<rparr>)
      in case spatialDataColumn options of
           None \<Rightarrow> p1
         | Some g \<Rightarrow> if g = [] then p1 else p1\<lparr>geo_column := Some g\<rparr>)"

definition CartoVectorTableSource ::
  "(MAP_TYPES \<Rightarrow> 'a CartoVectorTableSourceOptions_scheme \<Rightarrow> UrlParameters
      \<Rightarrow> format option \<Rightarrow> 'r)
   \<Rightarrow> 'a CartoVectorTableSourceOptions_scheme \<Rightarrow> format option \<Rightarrow> 'r" where
  "CartoVectorTableSource base options fmt = base TABLE options (urlParameters options) fmt"

section \<open>Auxiliary notions\<close>

text \<open>Every property visible in the first object reads the same in the second.\<close>

definition keeps :: "obj \<Rightarrow> obj \<Rightarrow> bool" where
  "keeps m m' \<longleftrightarrow>
     (\<forall>k. has_property k m \<longrightarrow> has_property k m' \<and> get_property m' k = get_property m k)"

text \<open>A layer set up for counting, drawn with the default options.\<close>

definition counting_layer :: layer where
  "counting_layer =
     \<lparr>layer_id = ''points'',
      props = \<lparr>filterCategoryList = [JStr ''a''], onFilteredItemsChange = True\<rparr>,
      state = \<lparr>categoryMap = None, filterFBO = Some 1, filterModel = Some 2,
                filterNeedsUpdate = Some True\<rparr>\<rparr>"

definition default_opts :: DataFilterExtensionOptions where
  "default_opts = \<lparr>categorySize = 1, filterSize = 1, fp64 = False, countItems = False\<rparr>"

text \<open>The numbers 0 to 128 as category values, a layer on which they have been given
  keys in that order, and options with two category channels.\<close>

definition number_categories :: "jsval list" where
  "number_categories = map (\<lambda>n. JNum (int n)) [0..<129]"

definition numbered_layer :: "jsval list \<Rightarrow> layer" where
  "numbered_layer cats =
     \<lparr>layer_id = ''points'',
      props = \<lparr>filterCategoryList = cats, onFilteredItemsChange = False\<rparr>,
      state = snd (getCategoryKeys fresh_state number_categories)\<rparr>"

definition two_channel_opts :: DataFilterExtensionOptions where
  "two_channel_opts = \<lparr>categorySize = 2, filterSize = 1, fp64 = False, countItems = False\<rparr>"

text \<open>The list \<^verbatim>\<open>categoryFilters\<close> of \<^verbatim>\<open>draw\<close>: the channel groups it goes through.\<close>

definition categoryFilters :: "DataFilterExtensionOptions \<Rightarrow> layer \<Rightarrow> jsval list" where
  "categoryFilters opts l =
     (if categorySize opts = 1 then [JArr (filterCategoryList (props l))]
      else filterCategoryList (props l))"

text \<open>The categories the two nested iterations of \<^verbatim>\<open>draw\<close> visit, each with the index \<open>c\<close>
  of its channel group, in the order visited, counting groups from \<open>c\<close>; \<open>None\<close> when some
  group cannot be iterated.\<close>

fun occurrences :: "nat \<Rightarrow> jsval list \<Rightarrow> (nat \<times> jsval) list option" where
  "occurrences c [] = Some []"
| "occurrences c (categoryFilter # rest) =
     (case iterate categoryFilter of
        Inl e \<Rightarrow> None
      | Inr categories \<Rightarrow>
          (case occurrences (c + 1) rest of
             None \<Rightarrow> None
           | Some later \<Rightarrow> Some (map (Pair c) categories @ later)))"

text \<open>What the claims about the bitmask have one occurrence add to word \<open>w\<close>: for a
  category of channel group \<open>c\<close> whose key is the number \<open>k\<close>, \<open>2 ^ (k mod 32)\<close> when
  \<open>c * (maxCat / 32) + k div 32\<close> is \<open>w\<close>; nothing otherwise.\<close>

definition addend :: "nat \<Rightarrow> nat \<Rightarrow> nat \<Rightarrow> propval \<Rightarrow> 'a::comm_semiring_1" where
  "addend maxCat w c key =
     (case key of
        Number k \<Rightarrow> if c * (maxCat div 32) + k div 32 = w then 2 ^ (k mod 32) else 0
      | _ \<Rightarrow> 0)"

text \<open>A new layer with the given list of categories.\<close>

definition new_layer :: "jsval list \<Rightarrow> layer" where
  "new_layer cats =
     \<lparr>layer_id = ''points'',
      props = \<lparr>filterCategoryList = cats, onFilteredItemsChange = False\<rparr>,
      state = fresh_state\<rparr>"

section \<open>Properties of the constructor\<close>

lemma truthy_DATA_TYPE_FROM_SIZE: "truthy (DATA_TYPE_FROM_SIZE n) \<longleftrightarrow> n \<in> {1, 2, 3, 4}"
  by (simp add: truthy_def DATA_TYPE_FROM_SIZE_def)

text \<open>
  Claim C1. With the defaults filled in, the constructor succeeds and keeps the four
  options exactly when \<open>categorySize\<close> and \<open>filterSize\<close> are both among 1, 2, 3, 4.
  Otherwise it returns an error and no instance: \<^verbatim>\<open>categorySize out of range\<close> when
  \<open>categorySize\<close> is outside (checked first), \<^verbatim>\<open>filterSize out of range\<close> when only
  \<open>filterSize\<close> is.
\<close>

theorem constructor_validates_sizes:
  "(with_default 1 (categorySize_arg arg) \<in> {1, 2, 3, 4} \<and>
    with_default 1 (filterSize_arg arg) \<in> {1, 2, 3, 4} \<longrightarrow>
      DataFilterExtension arg =
        Inr \<lparr>categorySize = with_default 1 (categorySize_arg arg),
             filterSize = with_default 1 (filterSize_arg arg),
             fp64 = with_default False (fp64_arg arg),
             countItems = with_default False (countItems_arg arg)\<rparr>) \<and>
   (with_default 1 (categorySize_arg arg) \<notin> {1, 2, 3, 4} \<longrightarrow>
      DataFilterExtension arg = Inl (Error ''categorySize out of range'')) \<and>
   (with_default 1 (categorySize_arg arg) \<in> {1, 2, 3, 4} \<and>
    with_default 1 (filterSize_arg arg) \<notin> {1, 2, 3, 4} \<longrightarrow>
      DataFilterExtension arg = Inl (Error ''filterSize out of range''))"
  unfolding DataFilterExtension_def Let_def LayerExtension_def
  by (simp only: truthy_DATA_TYPE_FROM_SIZE) simp

theorem constructor_validates_sizes_witness:
  "DataFilterExtension \<lparr>categorySize_arg = Some 2, filterSize_arg = None,
       fp64_arg = Some True, countItems_arg = None\<rparr> =
     Inr \<lparr>categorySize = 2, filterSize = 1, fp64 = True, countItems = False\<rparr> \<and>
   DataFilterExtension \<lparr>categorySize_arg = Some 5, filterSize_arg = Some 0,
       fp64_arg = None, countItems_arg = None\<rparr> =
     Inl (Error ''categorySize out of range'') \<and>
   DataFilterExtension \<lparr>categorySize_arg = Some 4, filterSize_arg = Some 0,
       fp64_arg = None, countItems_arg = None\<rparr> =
     Inl (Error ''filterSize out of range'')"
  using constructor_validates_sizes [of "\<lparr>categorySize_arg = Some 2, filterSize_arg = None,
       fp64_arg = Some True, countItems_arg = None\<rparr>"]
    constructor_validates_sizes [of "\<lparr>categorySize_arg = Some 5, filterSize_arg = Some 0,
       fp64_arg = None, countItems_arg = None\<rparr>"]
    constructor_validates_sizes [of "\<lparr>categorySize_arg = Some 4, filterSize_arg = Some 0,
       fp64_arg = None, countItems_arg = None\<rparr>"]
  by (simp add: with_default_def)

section \<open>Properties of the widget\<close>

text \<open>
  Claim C7. After \<^verbatim>\<open>onRemove\<close> the widget holds neither the deck nor its root element,
  and every other field (id, viewId, placement, props, isFullscreen) is as before.
\<close>

theorem onRemove_releases_host:
  "deck (onRemove w) = None \<and> element (onRemove w) = None \<and>
   widget_id (onRemove w) = widget_id w \<and> viewId (onRemove w) = viewId w \<and>
   placement (onRemove w) = placement w \<and> widget_props (onRemove w) = widget_props w \<and>
   isFullscreen (onRemove w) = isFullscreen w \<and>
   FullscreenWidget.more (onRemove w) = FullscreenWidget.more w"
  by (simp add: onRemove_def)

text \<open>
  Claim C5. A click with no fullscreen element active calls the widget's
  \<^verbatim>\<open>requestFullscreen\<close> exactly once and neither \<^verbatim>\<open>exitFullscreen\<close> nor the document's
  exit function; a click while a fullscreen element is active calls \<^verbatim>\<open>exitFullscreen\<close>
  exactly once and neither \<^verbatim>\<open>requestFullscreen\<close> nor an element's request function.
\<close>

theorem handleClick_toggles:
  "(fullscreenElement doc = None \<longrightarrow>
      count_list (fst (handleClick doc r w)) Widget_requestFullscreen = 1 \<and>
      count_list (fst (handleClick doc r w)) Widget_exitFullscreen = 0 \<and>
      Document_exitFullscreen \<notin> set (fst (handleClick doc r w))) \<and>
   (fullscreenElement doc \<noteq> None \<longrightarrow>
      count_list (fst (handleClick doc r w)) Widget_exitFullscreen = 1 \<and>
      count_list (fst (handleClick doc r w)) Widget_requestFullscreen = 0 \<and>
      (\<forall>e. Element_requestFullscreen e \<notin> set (fst (handleClick doc r w))))"
  by (auto simp: handleClick_def requestFullscreen_def exitFullscreen_def
           split: option.splits)

theorem handleClick_toggles_witness:
  "fst (handleClick \<lparr>fullscreenElement = None\<rparr> Fulfilled attached_widget) =
     [Widget_requestFullscreen, Element_requestFullscreen 7] \<and>
   count_list (fst (handleClick \<lparr>fullscreenElement = None\<rparr> Fulfilled attached_widget))
     Widget_requestFullscreen = 1 \<and>
   count_list (fst (handleClick \<lparr>fullscreenElement = None\<rparr> Fulfilled attached_widget))
     Widget_exitFullscreen = 0 \<and>
   fst (handleClick \<lparr>fullscreenElement = Some 7\<rparr> Fulfilled attached_widget) =
     [Widget_exitFullscreen, Document_exitFullscreen] \<and>
   count_list (fst (handleClick \<lparr>fullscreenElement = Some 7\<rparr> Fulfilled attached_widget))
     Widget_exitFullscreen = 1 \<and>
   count_list (fst (handleClick \<lparr>fullscreenElement = Some 7\<rparr> Fulfilled attached_widget))
     Widget_requestFullscreen = 0"
  using handleClick_toggles [of "\<lparr>fullscreenElement = None\<rparr>" Fulfilled attached_widget]
    handleClick_toggles [of "\<lparr>fullscreenElement = Some 7\<rparr>" Fulfilled attached_widget]
  by (simp add: handleClick_def requestFullscreen_def exitFullscreen_def attached_widget_def
        onAdd_def new_FullscreenWidget_def)

section \<open>Properties of the vector table source\<close>

text \<open>
  Claim C6. For options with table name \<^verbatim>\<open>t1\<close>, columns \<^verbatim>\<open>a\<close> and \<^verbatim>\<open>b\<close> and spatial data
  column \<^verbatim>\<open>geom\<close>, whatever else they hold, the url parameters are name \<^verbatim>\<open>t1\<close>, columns
  \<^verbatim>\<open>a,b\<close> and geo_column \<^verbatim>\<open>geom\<close>; the source hands exactly the parameters it built to the
  base source, with the tag \<^verbatim>\<open>TABLE\<close>, the options and the format; and a key is left out
  when its option is absent.
\<close>

theorem vector_table_source_parameters:
  "(tableName options = ''t1'' \<and> columns options = Some [''a'', ''b''] \<and>
    spatialDataColumn options = Some ''geom'' \<longrightarrow>
      urlParameters options =
        \<lparr>name = ''t1'', columns_param = Some ''a,b'', geo_column = Some ''geom''\<rparr> \<and>
      CartoVectorTableSource base options fmt =
        base TABLE options
          \<lparr>name = ''t1'', columns_param = Some ''a,b'', geo_column = Some ''geom''\<rparr> fmt) \<and>
   CartoVectorTableSource base options fmt = base TABLE options (urlParameters options) fmt \<and>
   name (urlParameters options) = tableName options \<and>
   (columns options = None \<longrightarrow> columns_param (urlParameters options) = None) \<and>
   (spatialDataColumn options = None \<longrightarrow> geo_column (urlParameters options) = None)"
  by (auto simp: urlParameters_def CartoVectorTableSource_def Let_def split: option.splits)

theorem vector_table_source_parameters_witness:
  "CartoVectorTableSource (\<lambda>t opts p f. (t, p, f))
     \<lparr>tableName = ''t1'', columns = Some [''a'', ''b''], spatialDataColumn = Some ''geom''\<rparr>
     (Some geojson) =
     (TABLE, \<lparr>name = ''t1'', columns_param = Some ''a,b'', geo_column = Some ''geom''\<rparr>,
      Some geojson) \<and>
   urlParameters \<lparr>tableName = ''t2'', columns = None, spatialDataColumn = None\<rparr> =
     \<lparr>name = ''t2'', columns_param = None, geo_column = None\<rparr>"
  using vector_table_source_parameters [of
      "\<lparr>tableName = ''t1'', columns = Some [''a'', ''b''], spatialDataColumn = Some ''geom''\<rparr>"
      "\<lambda>t opts p f. (t, p, f)" "Some geojson"]
    vector_table_source_parameters [of
      "\<lparr>tableName = ''t2'', columns = None, spatialDataColumn = None\<rparr>"
      "\<lambda>t opts p f. (t, p, f)" None]
  by (simp add: urlParameters_def)

section \<open>Category keys: auxiliary facts\<close>

lemma update_fresh: "k \<notin> fst ` set m \<Longrightarrow> AList.update k v m = m @ [(k, v)]"
  by (induction m) auto

lemma map_of_fresh: "k \<notin> fst ` set m \<Longrightarrow> map_of m k = None"
  by (simp add: map_of_eq_None_iff)

lemma getCategoryKey_eq:
  "getCategoryKey s c =
     (if has_property (ToString c) (category_entries s)
      then (get_property (category_entries s) (ToString c),
            s\<lparr>categoryMap := Some (category_entries s)\<rparr>)
      else (Number (length (Object_keys (category_entries s))),
            s\<lparr>categoryMap := Some (category_entries s @
                 [(ToString c, length (Object_keys (category_entries s)))])\<rparr>))"
proof (cases "has_property (ToString c) (category_entries s)")
  case True
  then show ?thesis
    by (simp add: getCategoryKey_def category_entries_def Let_def)
next
  case False
  then have fresh: "ToString c \<notin> fst ` set (category_entries s)"
    by (simp add: has_property_def)
  then have "map_of (category_entries s) (ToString c) = None"
    by (simp add: map_of_eq_None_iff)
  with False fresh show ?thesis
    by (simp add: getCategoryKey_def category_entries_def [symmetric] Let_def update_fresh
          get_property_def map_add_def)
qed

lemma category_entries_update [simp]:
  "category_entries (s\<lparr>categoryMap := Some m\<rparr>) = m"
  by (simp add: category_entries_def)

lemma keeps_refl: "keeps m m"
  by (simp add: keeps_def)

lemma keeps_trans: "keeps a b \<Longrightarrow> keeps b c \<Longrightarrow> keeps a c"
  by (simp add: keeps_def)

lemma keeps_snoc: "\<not> has_property k m \<Longrightarrow> keeps m (m @ [(k, v)])"
  by (auto simp: keeps_def has_property_def get_property_def map_of_fresh map_add_def
      split: option.splits)

lemma getCategoryKey_keeps:
  "keeps (category_entries s) (category_entries (snd (getCategoryKey s c)))"
  by (simp add: getCategoryKey_eq keeps_refl keeps_snoc)

lemma getCategoryKey_stored:
  "has_property (ToString c) (category_entries (snd (getCategoryKey s c))) \<and>
   get_property (category_entries (snd (getCategoryKey s c))) (ToString c) =
     fst (getCategoryKey s c)"
  by (auto simp: getCategoryKey_eq has_property_def get_property_def map_of_fresh map_add_def
      split: option.splits)

lemma getCategoryKeys_keeps:
  "keeps (category_entries s) (category_entries (snd (getCategoryKeys s cats)))"
proof (induction cats arbitrary: s)
  case Nil
  show ?case by (simp add: keeps_refl)
next
  case (Cons c cats)
  have "keeps (category_entries s) (category_entries (snd (getCategoryKey s c)))"
    by (rule getCategoryKey_keeps)
  moreover have "keeps (category_entries (snd (getCategoryKey s c)))
      (category_entries (snd (getCategoryKeys (snd (getCategoryKey s c)) cats)))"
    by (rule Cons.IH)
  ultimately show ?case
    by (auto simp: split_beta Let_def intro: keeps_trans)
qed

lemma length_getCategoryKeys: "length (fst (getCategoryKeys s cats)) = length cats"
  by (induction cats arbitrary: s) (simp_all add: split_beta Let_def)

lemma getCategoryKeys_stable:
  "fst (getCategoryKeys s cats) =
     map (\<lambda>c. get_property (category_entries (snd (getCategoryKeys s cats))) (ToString c)) cats"
proof (induction cats arbitrary: s)
  case Nil
  show ?case by simp
next
  case (Cons c cats)
  let ?s1 = "snd (getCategoryKey s c)"
  have "keeps (category_entries ?s1) (category_entries (snd (getCategoryKeys ?s1 cats)))"
    by (rule getCategoryKeys_keeps)
  with getCategoryKey_stored [of c s]
  have "get_property (category_entries (snd (getCategoryKeys ?s1 cats))) (ToString c) =
      fst (getCategoryKey s c)"
    by (simp add: keeps_def)
  with Cons.IH [of ?s1] show ?case
    by (simp add: split_beta Let_def)
qed

lemma getCategoryKeys_append:
  "getCategoryKeys s (xs @ ys) =
     (fst (getCategoryKeys s xs) @ fst (getCategoryKeys (snd (getCategoryKeys s xs)) ys),
      snd (getCategoryKeys (snd (getCategoryKeys s xs)) ys))"
  by (induction xs arbitrary: s) (simp_all add: split_beta Let_def)

lemma nth_getCategoryKeys:
  assumes "i < length cats"
  shows "fst (getCategoryKeys s cats) ! i =
     fst (getCategoryKey (snd (getCategoryKeys s (take i cats))) (cats ! i))"
proof -
  have "cats = take i cats @ cats ! i # drop (Suc i) cats"
    using assms by (simp add: id_take_nth_drop)
  then have "fst (getCategoryKeys s cats) ! i =
      fst (getCategoryKeys s (take i cats @ cats ! i # drop (Suc i) cats)) ! i"
    by simp
  also have "\<dots> = fst (getCategoryKey (snd (getCategoryKeys s (take i cats))) (cats ! i))"
    using assms
    by (simp add: getCategoryKeys_append nth_append length_getCategoryKeys split_beta Let_def)
  finally show ?thesis .
qed

text \<open>From an empty map, and with no key that an object inherits, the own keys are the
  keys asked for so far, each once.\<close>

lemma entries_after_calls:
  assumes "category_entries s = []"
    and "set (map ToString cats) \<inter> set Object_prototype_keys = {}"
  shows "distinct (map fst (category_entries (snd (getCategoryKeys s cats)))) \<and>
     set (map fst (category_entries (snd (getCategoryKeys s cats)))) = set (map ToString cats)"
  using assms(2)
proof (induction cats rule: rev_induct)
  case Nil
  show ?case using assms(1) by simp
next
  case (snoc c cats)
  let ?s1 = "snd (getCategoryKeys s cats)"
  from snoc have IH: "distinct (map fst (category_entries ?s1))"
      "set (map fst (category_entries ?s1)) = set (map ToString cats)"
    by auto
  from snoc.prems have np: "ToString c \<notin> set Object_prototype_keys"
    by auto
  show ?case
    using IH np
    by (auto simp: getCategoryKeys_append split_beta Let_def getCategoryKey_eq has_property_def)
qed

lemma first_use_key:
  assumes "category_entries s = []"
    and "set (map ToString cats) \<inter> set Object_prototype_keys = {}"
    and "i < length cats"
    and "ToString (cats ! i) \<notin> set (take i (map ToString cats))"
  shows "fst (getCategoryKeys s cats) ! i =
     Number (length (remdups (take i (map ToString cats))))"
proof -
  let ?s1 = "snd (getCategoryKeys s (take i cats))"
  have "set (map ToString (take i cats)) \<inter> set Object_prototype_keys = {}"
    using assms(2) by (auto dest: in_set_takeD)
  with assms(1) have d: "distinct (map fst (category_entries ?s1))"
    and e: "set (map fst (category_entries ?s1)) = set (map ToString (take i cats))"
    using entries_after_calls [of s "take i cats"] by auto
  have np: "ToString (cats ! i) \<notin> set Object_prototype_keys"
    using assms(2,3) by (auto simp: disjoint_iff)
  have new: "\<not> has_property (ToString (cats ! i)) (category_entries ?s1)"
    using assms(4) np e by (simp add: has_property_def take_map)
  have "length (Object_keys (category_entries ?s1)) = length (remdups (take i (map ToString cats)))"
    using d e
    by (metis Object_keys_def distinct_card length_remdups_card_conv take_map distinct_remdups_id)
  with new show ?thesis
    by (simp add: nth_getCategoryKeys [OF assms(3)] getCategoryKey_eq)
qed

lemma count_loop_sum: "count_loop color i count = count + sum_list (drop i color)"
proof (induction color i count rule: count_loop.induct)
  case (1 color i count)
  show ?case
  proof (cases "i < length color")
    case True
    then have "drop i color = color ! i # drop (Suc i) color"
      by (simp add: Cons_nth_drop_Suc)
    with True 1 show ?thesis
      by (subst count_loop.simps) simp
  next
    case False
    then show ?thesis
      by (subst count_loop.simps) simp
  qed
qed

section \<open>Bitmask accumulation and draw: auxiliary facts\<close>

lemma getCategoryKey_flag:
  "getCategoryKey (s\<lparr>filterNeedsUpdate := v\<rparr>) c =
     (fst (getCategoryKey s c), (snd (getCategoryKey s c))\<lparr>filterNeedsUpdate := v\<rparr>)"
  by (simp add: getCategoryKey_def Let_def)

lemma getCategoryKeys_flag:
  "getCategoryKeys (s\<lparr>filterNeedsUpdate := v\<rparr>) cats =
     (fst (getCategoryKeys s cats), (snd (getCategoryKeys s cats))\<lparr>filterNeedsUpdate := v\<rparr>)"
  by (induction cats arbitrary: s) (simp_all add: getCategoryKey_flag split_beta Let_def)

lemma getCategoryKey_keeps_flag:
  "filterNeedsUpdate (snd (getCategoryKey s c)) = filterNeedsUpdate s"
  by (simp add: getCategoryKey_def Let_def)

lemma getCategoryKeys_keeps_flag:
  "filterNeedsUpdate (snd (getCategoryKeys s cats)) = filterNeedsUpdate s"
  by (induction cats arbitrary: s) (simp_all add: getCategoryKey_keeps_flag split_beta Let_def)

lemma category_loop_eq:
  "category_loop c mc cats (s, m) =
     (snd (getCategoryKeys s cats), fold (add_category c mc) (fst (getCategoryKeys s cats)) m)"
  by (induction cats arbitrary: s m) (simp_all add: split_beta Let_def)

lemma length_add_category: "length (add_category c mc r m) = length m"
  by (simp add: add_category_def Let_def split: propval.splits)

lemma group_loop_flag:
  "filterNeedsUpdate (fst (group_loop c mc gs (s, m))) = filterNeedsUpdate s"
proof (induction gs arbitrary: c s m)
  case Nil
  show ?case by simp
next
  case (Cons g gs)
  show ?case
  proof (cases "iterate g")
    case (Inl e)
    then show ?thesis by simp
  next
    case (Inr cats)
    then show ?thesis
      by (simp add: category_loop_eq Cons.IH getCategoryKeys_keeps_flag)
  qed
qed

lemma draw_single_group:
  assumes "categorySize opts = 1"
  shows "snd (snd (draw l color opts)) =
     Inr (fold (add_category 0 128)
            (fst (getCategoryKeys (state l) (filterCategoryList (props l)))) [0, 0, 0, 0])"
  using assms
  by (simp add: draw_def Let_def split_beta maxCategories_def category_loop_eq
        getCategoryKeys_flag)

section \<open>Properties of the item count\<close>

text \<open>
  Claim C4. When \<^verbatim>\<open>draw\<close> takes the counting branch (the flag \<open>filterNeedsUpdate\<close> is
  set, a callback is given and the filter model exists), the callback is called once,
  with the layer's id and the sum of all elements of the colour buffer read back, and the
  flag is \<^verbatim>\<open>false\<close> afterwards. Otherwise nothing is reported and the flag stays.
\<close>

theorem draw_reports_sum:
  "(filterNeedsUpdate (state l) = Some True \<and> onFilteredItemsChange (props l) \<and>
    filterModel (state l) \<noteq> None \<longrightarrow>
      fst (snd (draw l color opts)) = [\<lparr>evt_id = layer_id l, evt_count = sum_list color\<rparr>] \<and>
      filterNeedsUpdate (state (fst (draw l color opts))) = Some False) \<and>
   (\<not> (filterNeedsUpdate (state l) = Some True \<and> onFilteredItemsChange (props l) \<and>
    filterModel (state l) \<noteq> None) \<longrightarrow>
      fst (snd (draw l color opts)) = [] \<and>
      filterNeedsUpdate (state (fst (draw l color opts))) = filterNeedsUpdate (state l))"
proof -
  have flag: "filterNeedsUpdate (state (fst (draw l color opts))) =
      (if filterNeedsUpdate (state l) = Some True \<and> onFilteredItemsChange (props l) \<and>
          filterModel (state l) \<noteq> None
       then Some False else filterNeedsUpdate (state l))"
    using group_loop_flag
    by (simp add: draw_def Let_def split_beta)
  have evts: "fst (snd (draw l color opts)) =
      (if filterNeedsUpdate (state l) = Some True \<and> onFilteredItemsChange (props l) \<and>
          filterModel (state l) \<noteq> None
       then [\<lparr>evt_id = layer_id l, evt_count = sum_list color\<rparr>] else [])"
    by (simp add: draw_def Let_def split_beta count_loop_sum)
  show ?thesis
    by (simp only: flag evts) simp
qed

theorem draw_reports_sum_witness:
  "fst (snd (draw counting_layer [1, 0, 0, 0, 1, 0, 0, 0, 0, 0, 0, 0] default_opts)) =
     [\<lparr>evt_id = ''points'', evt_count = 2\<rparr>] \<and>
   filterNeedsUpdate
     (state (fst (draw counting_layer [1, 0, 0, 0, 1, 0, 0, 0, 0, 0, 0, 0] default_opts))) =
     Some False \<and>
   fst (snd (draw (counting_layer\<lparr>props := \<lparr>filterCategoryList = [JStr ''a''],
       onFilteredItemsChange = False\<rparr>\<rparr>) [1, 0, 0, 0] default_opts)) = [] \<and>
   filterNeedsUpdate (state (fst (draw (counting_layer\<lparr>props :=
       \<lparr>filterCategoryList = [JStr ''a''], onFilteredItemsChange = False\<rparr>\<rparr>)
       [1, 0, 0, 0] default_opts))) = Some True"
  using draw_reports_sum [of counting_layer "[1, 0, 0, 0, 1, 0, 0, 0, 0, 0, 0, 0]" default_opts]
    draw_reports_sum [of "counting_layer\<lparr>props := \<lparr>filterCategoryList = [JStr ''a''],
       onFilteredItemsChange = False\<rparr>\<rparr>" "[1, 0, 0, 0]" default_opts]
  by (simp add: counting_layer_def)

section \<open>Category keys: further facts\<close>

lemma getCategoryKey_again:
  assumes "ToString a = ToString b"
  shows "fst (getCategoryKey (snd (getCategoryKey s a)) b) = fst (getCategoryKey s a)"
proof -
  let ?s1 = "snd (getCategoryKey s a)"
  from getCategoryKey_stored [of a s] assms
  have "has_property (ToString b) (category_entries ?s1)"
    and "get_property (category_entries ?s1) (ToString b) = fst (getCategoryKey s a)"
    by simp_all
  then show ?thesis
    by (simp add: getCategoryKey_eq [of ?s1 b])
qed


lemma distinct_keys_in_order:
  assumes "category_entries s = []"
    and "distinct (map ToString cats)"
    and "set (map ToString cats) \<inter> set Object_prototype_keys = {}"
    and "i < length cats"
  shows "fst (getCategoryKeys s cats) ! i = Number i"
proof -
  from assms(2) have d: "distinct (take i (map ToString cats))"
    by (rule distinct_take)
  from assms(2,4) have "map ToString cats ! i \<notin> set (take i (map ToString cats))"
    by (metis d distinct_take id_take_nth_drop length_map not_distinct_conv_prefix
        take_Suc_conv_app_nth)
  with assms(4) have "ToString (cats ! i) \<notin> set (take i (map ToString cats))"
    by simp
  from first_use_key [OF assms(1) assms(3) assms(4) this] d assms(4) show ?thesis
    by (simp add: distinct_remdups_id)
qed

lemma registered_key:
  assumes "category_entries s = []"
    and "distinct (map ToString cats)"
    and "set (map ToString cats) \<inter> set Object_prototype_keys = {}"
    and "i < length cats"
  shows "fst (getCategoryKey (snd (getCategoryKeys s cats)) (cats ! i)) = Number i"
proof -
  let ?s1 = "snd (getCategoryKeys s cats)"
  have "fst (getCategoryKeys s cats) ! i = get_property (category_entries ?s1) (ToString (cats ! i))"
    using assms(4) by (subst getCategoryKeys_stable) simp
  with distinct_keys_in_order [OF assms]
  have stored: "get_property (category_entries ?s1) (ToString (cats ! i)) = Number i"
    by simp
  have "ToString (cats ! i) \<in> set (map fst (category_entries ?s1))"
    using entries_after_calls [OF assms(1) assms(3)] assms(4) by simp
  then have "has_property (ToString (cats ! i)) (category_entries ?s1)"
    by (simp add: has_property_def)
  with stored show ?thesis
    by (simp add: getCategoryKey_eq)
qed

lemma number_categories_distinct: "distinct (map ToString number_categories)"
  by code_simp

lemma number_categories_own: "set (map ToString number_categories) \<inter> set Object_prototype_keys = {}"
  by code_simp

lemma number_categories_nth: "i < 129 \<Longrightarrow> number_categories ! i = JNum (int i)"
  by (simp add: number_categories_def)

lemma numbered_layer_key:
  assumes "i < 129"
  shows "fst (getCategoryKey (state (numbered_layer cats)) (JNum (int i))) = Number i"
proof -
  have e: "category_entries fresh_state = []"
    by (simp add: fresh_state_def category_entries_def)
  have "length number_categories = 129"
    by (simp add: number_categories_def)
  with assms registered_key [OF e number_categories_distinct number_categories_own, of i]
  show ?thesis
    by (simp add: numbered_layer_def number_categories_nth)
qed

section \<open>Properties of the category keys\<close>

text \<open>
  Claim C2, as amended. On a layer whose category map is not yet created, and for category
  values whose string forms are not names of properties inherited from
  \<^verbatim>\<open>Object.prototype\<close>: a call whose string form has not been asked for before returns the
  number of distinct string forms asked for before it (so 0, 1, 2, ... in order of first
  use); a call whose string form was asked for before returns what was returned then; and
  every key returned is still stored in the map at the end. Values are told apart by their
  string form, not by value and type.
\<close>

theorem category_keys_by_first_use:
  assumes "categoryMap s = None"
    and "set (map ToString cats) \<inter> set Object_prototype_keys = {}"
    and "i < length cats"
  shows "length (fst (getCategoryKeys s cats)) = length cats \<and>
     (ToString (cats ! i) \<notin> set (take i (map ToString cats)) \<longrightarrow>
        fst (getCategoryKeys s cats) ! i =
          Number (length (remdups (take i (map ToString cats))))) \<and>
     (\<forall>j<i. ToString (cats ! j) = ToString (cats ! i) \<longrightarrow>
        fst (getCategoryKeys s cats) ! i = fst (getCategoryKeys s cats) ! j) \<and>
     get_property (category_entries (snd (getCategoryKeys s cats))) (ToString (cats ! i)) =
       fst (getCategoryKeys s cats) ! i"
proof -
  from assms(1) have empty: "category_entries s = []"
    by (simp add: category_entries_def)
  have stable: "fst (getCategoryKeys s cats) ! j =
      get_property (category_entries (snd (getCategoryKeys s cats))) (ToString (cats ! j))"
    if "j < length cats" for j
    using that by (subst getCategoryKeys_stable) simp
  have first: "ToString (cats ! i) \<notin> set (take i (map ToString cats)) \<longrightarrow>
      fst (getCategoryKeys s cats) ! i =
        Number (length (remdups (take i (map ToString cats))))"
    using first_use_key [OF empty assms(2) assms(3)] by blast
  have again: "\<forall>j<i. ToString (cats ! j) = ToString (cats ! i) \<longrightarrow>
      fst (getCategoryKeys s cats) ! i = fst (getCategoryKeys s cats) ! j"
    using assms(3) by (simp add: stable)
  show ?thesis
    using first again stable [OF assms(3)] by (simp add: length_getCategoryKeys)
qed

theorem category_keys_by_first_use_witness:
  "fst (getCategoryKeys fresh_state [JStr ''a'', JNum 7, JStr ''a'', JBool True]) ! 1 = Number 1 \<and>
   fst (getCategoryKeys fresh_state [JStr ''a'', JNum 7, JStr ''a'', JBool True]) ! 2 =
     fst (getCategoryKeys fresh_state [JStr ''a'', JNum 7, JStr ''a'', JBool True]) ! 0 \<and>
   fst (getCategoryKeys fresh_state [JStr ''a'', JNum 7, JStr ''a'', JBool True]) ! 3 = Number 2"
  using category_keys_by_first_use [of fresh_state "[JStr ''a'', JNum 7, JStr ''a'', JBool True]" 1]
    category_keys_by_first_use [of fresh_state "[JStr ''a'', JNum 7, JStr ''a'', JBool True]" 2]
    category_keys_by_first_use [of fresh_state "[JStr ''a'', JNum 7, JStr ''a'', JBool True]" 3]
  by (simp add: fresh_state_def Object_prototype_keys_def string_of_nat.simps)

text \<open>
  Claim C2 as stated fails: the number 7 and the string \<^verbatim>\<open>7\<close> are distinct values, and
  the second of them receives key 0, not key 1.
\<close>

theorem second_distinct_value_gets_key_0:
  "JNum 7 \<noteq> JStr ''7'' \<and>
   fst (getCategoryKeys fresh_state [JNum 7, JStr ''7'']) = [Number 0, Number 0] \<and>
   fst (getCategoryKeys fresh_state [JNum 7, JStr ''7'']) ! 1 \<noteq> Number 1"
  by code_simp

text \<open>A category whose string form names a property every object inherits is never given
  a key: the \<^verbatim>\<open>in\<close> test succeeds on the empty map, nothing is stored, and the inherited
  member is returned.\<close>

lemma inherited_name_gets_no_key:
  "getCategoryKey fresh_state (JStr ''toString'') =
     (Inherited ''toString'', fresh_state\<lparr>categoryMap := Some []\<rparr>)"
  by code_simp

text \<open>
  Claim C9. Two values with the same string form are the same to \<^verbatim>\<open>_getCategoryKey\<close>: from
  any state the call returns the same key and leaves the same state for both, and called
  one after the other they receive the same key. The number 7 and the string \<^verbatim>\<open>7\<close> are
  such values.
\<close>

theorem category_identified_by_string:
  "(ToString a = ToString b \<longrightarrow>
      getCategoryKey s a = getCategoryKey s b \<and>
      fst (getCategoryKeys s [a, b]) = [fst (getCategoryKey s a), fst (getCategoryKey s a)]) \<and>
   JNum 7 \<noteq> JStr ''7'' \<and> ToString (JNum 7) = ToString (JStr ''7'')"
proof -
  have same: "getCategoryKey s a = getCategoryKey s b" if "ToString a = ToString b"
    using that by (simp add: getCategoryKey_def)
  have "ToString (JNum 7) = ToString (JStr ''7'')"
    by (simp add: string_of_nat.simps)
  with same getCategoryKey_again [of a b s] show ?thesis
    by (simp add: split_beta Let_def)
qed

theorem category_identified_by_string_witness:
  "ToString (JNum 7) = ToString (JStr ''7'') \<and>
   getCategoryKey fresh_state (JNum 7) = getCategoryKey fresh_state (JStr ''7'') \<and>
   fst (getCategoryKeys fresh_state [JNum 7, JStr ''7'']) = [Number 0, Number 0]"
proof -
  have h: "ToString (JNum 7) = ToString (JStr ''7'')"
    by (simp add: string_of_nat.simps)
  have k: "fst (getCategoryKey fresh_state (JNum 7)) = Number 0"
    by code_simp
  from category_identified_by_string [of "JNum 7" "JStr ''7''" fresh_state] h
  have a: "getCategoryKey fresh_state (JNum 7) = getCategoryKey fresh_state (JStr ''7'')"
    and b: "fst (getCategoryKeys fresh_state [JNum 7, JStr ''7'']) =
      [fst (getCategoryKey fresh_state (JNum 7)), fst (getCategoryKey fresh_state (JNum 7))]"
    by blast+
  show ?thesis
    unfolding b k using h a by blast
qed

text \<open>
  Claim C8 does not hold of the code: the keys are not bounded. Asked for the 129
  distinct numbers 0 to 128 in turn, a new layer stores and returns key 128 for the last.
\<close>

theorem key_of_129th_category:
  "length number_categories = 129 \<and>
   distinct number_categories \<and>
   fst (getCategoryKeys fresh_state number_categories) ! 128 = Number 128 \<and>
   get_property (category_entries (snd (getCategoryKeys fresh_state number_categories)))
     (ToString (JNum 128)) = Number 128"
proof -
  have len: "length number_categories = 129"
    by (simp add: number_categories_def)
  have e: "category_entries fresh_state = []"
    by (simp add: fresh_state_def category_entries_def)
  have d: "distinct number_categories"
    using number_categories_distinct by (rule distinct_map [THEN iffD1, THEN conjunct1])
  have k: "fst (getCategoryKeys fresh_state number_categories) ! 128 = Number 128"
    using distinct_keys_in_order [OF e number_categories_distinct number_categories_own, of 128]
    by (simp add: len)
  have "fst (getCategoryKeys fresh_state number_categories) ! 128 =
      get_property (category_entries (snd (getCategoryKeys fresh_state number_categories)))
        (ToString (number_categories ! 128))"
    by (subst getCategoryKeys_stable) (simp add: len)
  with k have "get_property (category_entries (snd (getCategoryKeys fresh_state number_categories)))
     (ToString (JNum 128)) = Number 128"
    by (simp add: number_categories_nth)
  with len d k show ?thesis by simp
qed

section \<open>Properties of the category bitmask\<close>

lemma fold_same_group:
  "length xs = length rs \<Longrightarrow>
   fold (\<lambda>(c, key). add_category c mc key) (zip (map (\<lambda>x. g) xs) rs) m =
     fold (add_category g mc) rs m"
  by (induction xs rs arbitrary: m rule: list_induct2) simp_all

lemma group_loop_occurrences:
  "occurrences c gs = Some occ \<Longrightarrow>
   group_loop c mc gs (s, m) =
     (snd (getCategoryKeys s (map snd occ)),
      Inr (fold (\<lambda>(c, key). add_category c mc key)
             (zip (map fst occ) (fst (getCategoryKeys s (map snd occ)))) m))"
proof (induction gs arbitrary: c s m occ)
  case Nil
  then show ?case by simp
next
  case (Cons g gs)
  from Cons.prems obtain cats later where it: "iterate g = Inr cats"
    and rest: "occurrences (c + 1) gs = Some later"
    and occ: "occ = map (Pair c) cats @ later"
    by (auto split: sum.splits option.splits)
  let ?s1 = "snd (getCategoryKeys s cats)"
  let ?r1 = "fst (getCategoryKeys s cats)"
  have len: "length (map fst (map (Pair c) cats)) = length ?r1"
    by (simp add: length_getCategoryKeys)
  have z: "zip (map fst occ) (fst (getCategoryKeys s (map snd occ))) =
      zip (map (\<lambda>x. c) cats) ?r1 @
      zip (map fst later) (fst (getCategoryKeys ?s1 (map snd later)))"
    using len by (simp add: occ getCategoryKeys_append comp_def)
  have st: "snd (getCategoryKeys s (map snd occ)) = snd (getCategoryKeys ?s1 (map snd later))"
    by (simp add: occ getCategoryKeys_append comp_def)
  show ?case
    using Cons.IH [OF rest, of ?s1 "fold (add_category c mc) ?r1 m"]
    by (simp add: it category_loop_eq z st fold_same_group length_getCategoryKeys
          del: getCategoryKeys.simps)
qed

lemma group_loop_not_iterable:
  "occurrences c gs = None \<Longrightarrow> snd (group_loop c mc gs (s, m)) = Inl TypeError"
proof (induction gs arbitrary: c s m)
  case Nil
  then show ?case by simp
next
  case (Cons g gs)
  show ?case
  proof (cases "iterate g")
    case (Inl e)
    then have "e = TypeError"
      by (cases g) simp_all
    with Inl show ?thesis by simp
  next
    case (Inr cats)
    with Cons.prems have "occurrences (c + 1) gs = None"
      by (simp split: option.splits)
    from Cons.IH [OF this] Inr show ?thesis
      by (simp add: category_loop_eq)
  qed
qed

lemma draw_group_loop:
  "snd (snd (draw l color opts)) =
     snd (group_loop 0 (maxCategories (categorySize opts)) (categoryFilters opts l)
            (if filterNeedsUpdate (state l) = Some True \<and> onFilteredItemsChange (props l) \<and>
                filterModel (state l) \<noteq> None
             then (state l)\<lparr>filterNeedsUpdate := Some False\<rparr> else state l, [0, 0, 0, 0]))"
  by (simp add: draw_def Let_def split_beta categoryFilters_def)

lemma draw_occurrences:
  assumes "occurrences 0 (categoryFilters opts l) = Some occ"
  shows "snd (snd (draw l color opts)) =
     Inr (fold (\<lambda>(c, key). add_category c (maxCategories (categorySize opts)) key)
            (zip (map fst occ) (fst (getCategoryKeys (state l) (map snd occ)))) [0, 0, 0, 0])"
  by (simp add: draw_group_loop group_loop_occurrences [OF assms] getCategoryKeys_flag)

lemma draw_not_iterable:
  assumes "occurrences 0 (categoryFilters opts l) = None"
  shows "snd (snd (draw l color opts)) = Inl TypeError"
  by (simp only: draw_group_loop group_loop_not_iterable [OF assms])

lemma length_fold_pairs:
  "length (fold (\<lambda>(c, key). add_category c mc key) ps m) = length m"
  by (induction ps arbitrary: m) (simp_all add: length_add_category split_beta)

lemma add_category_addend:
  "w < length m \<Longrightarrow> add_category c mc key m ! w = m ! w + addend mc w c key"
  by (auto simp: add_category_def addend_def Let_def nth_list_update split: propval.splits)

lemma nth_fold_pairs:
  "w < length m \<Longrightarrow>
   fold (\<lambda>(c, key). add_category c mc key) ps m ! w =
     m ! w + (\<Sum>(c, key)\<leftarrow>ps. addend mc w c key)"
proof (induction ps arbitrary: m)
  case Nil
  show ?case by simp
next
  case (Cons p ps)
  obtain c key where p: "p = (c, key)" by (cases p)
  from Cons.prems have "w < length (add_category c mc key m)"
    by (simp add: length_add_category)
  from Cons.IH [OF this] Cons.prems show ?case
    by (simp add: p add_category_addend add.assoc)
qed

lemma zeros_nth: "i < 4 \<Longrightarrow> [0, 0, 0, 0 :: 32 word] ! i = 0"
proof -
  assume "i < 4"
  then have "i = 0 \<or> i = 1 \<or> i = 2 \<or> i = 3"
    by arith
  then show ?thesis
    by auto
qed

lemma four_words: "length m = 4 \<Longrightarrow> m = [m ! 0, m ! 1, m ! 2, m ! 3]"
proof -
  assume "length m = 4"
  then have "length m = Suc (Suc (Suc (Suc 0)))"
    by simp
  then obtain a b c d where "m = [a, b, c, d]"
    by (auto simp: length_Suc_conv)
  then show ?thesis
    by simp
qed

lemma mask_of_occurrences:
  "fold (\<lambda>(c, key). add_category c mc key) ps [0, 0, 0, 0] =
     map (\<lambda>w. \<Sum>(c, key)\<leftarrow>ps. addend mc w c key) [0, 1, 2, 3]"
proof -
  let ?m = "fold (\<lambda>(c, key). add_category c mc key) ps [0, 0, 0, 0]"
  have l: "length ?m = 4"
    by (simp add: length_fold_pairs)
  have n: "?m ! w = (\<Sum>(c, key)\<leftarrow>ps. addend mc w c key)" if "w < 4" for w
    using that by (simp add: nth_fold_pairs zeros_nth)
  from four_words [OF l] have "?m = [?m ! 0, ?m ! 1, ?m ! 2, ?m ! 3]" .
  then show ?thesis
    by (simp add: n)
qed

lemma group_loop_empty_groups:
  "group_loop c mc (replicate n (JArr []) @ rest) (s, m) = group_loop (c + n) mc rest (s, m)"
  by (induction n arbitrary: c) simp_all

lemma draw_one_category:
  assumes "categorySize opts = 1" and "filterCategoryList (props l) = [a]"
  shows "snd (snd (draw l color opts)) =
     Inr (add_category 0 128 (fst (getCategoryKey (state l) a)) [0, 0, 0, 0])"
  using assms by (simp add: draw_single_group split_beta Let_def)

lemma draw_one_category_in_group:
  assumes "categorySize opts \<noteq> 1"
    and "filterCategoryList (props l) = replicate c (JArr []) @ [JArr [a]]"
  shows "snd (snd (draw l color opts)) =
     Inr (add_category c (maxCategories (categorySize opts))
            (fst (getCategoryKey (state l) a)) [0, 0, 0, 0])"
  using assms
  by (simp add: draw_def Let_def split_beta group_loop_empty_groups getCategoryKey_flag)

lemma add_category_zero:
  "add_category c mc (Number k) [0, 0, 0, 0] =
     (if c * (mc div 32) + k div 32 < 4
      then [0, 0, 0, 0][c * (mc div 32) + k div 32 := 2 ^ (k mod 32)] else [0, 0, 0, 0])"
  by (simp add: add_category_def Let_def zeros_nth del: list_update.simps)

lemma sum_same_group:
  "length xs = length rs \<Longrightarrow>
   (\<Sum>(c, key)\<leftarrow>zip (map (\<lambda>x. g) xs) rs. f c key) = (\<Sum>key\<leftarrow>rs. f g key)"
  by (induction xs rs rule: list_induct2) simp_all

lemma occurrences_single_group: "occurrences c [JArr cats] = Some (map (Pair c) cats)"
  by simp

lemma bit_sum_distinct_keys:
  "distinct keys \<Longrightarrow> j < 32 \<Longrightarrow>
   bit (\<Sum>key\<leftarrow>keys. addend mc w 0 key :: 32 word) j \<longleftrightarrow> Number (32 * w + j) \<in> set keys"
proof (induction keys arbitrary: j)
  case Nil
  show ?case by simp
next
  case (Cons r rs)
  let ?S = "\<Sum>key\<leftarrow>rs. addend mc w 0 key :: 32 word"
  from Cons.prems have d: "distinct rs" and nr: "r \<notin> set rs"
    by simp_all
  have IH: "bit ?S i \<longleftrightarrow> Number (32 * w + i) \<in> set rs" if "i < 32" for i
    using Cons.IH [OF d that] .
  show ?case
  proof (cases "\<exists>k. r = Number k \<and> k div 32 = w")
    case True
    then obtain k where r: "r = Number k" and kw: "k div 32 = w"
      by blast
    have k: "k = 32 * w + k mod 32"
      using kw by (metis div_mult_mod_eq mult.commute)
    have a: "addend mc w 0 r = (2 :: 32 word) ^ (k mod 32)"
      by (simp add: addend_def r kw)
    have "\<not> bit ?S (k mod 32)"
      using IH [of "k mod 32"] nr r k by simp
    then have disj: "\<not> bit ((2 :: 32 word) ^ (k mod 32)) n \<or> \<not> bit ?S n" for n
      by (auto simp: bit_exp_iff)
    have "bit ((2 :: 32 word) ^ (k mod 32) + ?S) j \<longleftrightarrow>
        bit ((2 :: 32 word) ^ (k mod 32)) j \<or> bit ?S j"
      by (rule bit_disjunctive_add_iff) (rule disj)
    also have "\<dots> \<longleftrightarrow> j = k mod 32 \<or> Number (32 * w + j) \<in> set rs"
      using Cons.prems(2) by (auto simp: bit_exp_iff IH)
    also have "\<dots> \<longleftrightarrow> Number (32 * w + j) \<in> set (r # rs)"
      using k Cons.prems(2) by (auto simp: r)
    finally show ?thesis
      by (simp add: a)
  next
    case False
    then have a: "addend mc w 0 r = (0 :: 32 word)"
      by (auto simp: addend_def split: propval.splits)
    have "(32 * w + j) div 32 = w"
      using Cons.prems(2) by simp
    with False have "r \<noteq> Number (32 * w + j)"
      by blast
    with IH [OF Cons.prems(2)] show ?thesis
      by (auto simp: a)
  qed
qed

lemma getCategoryKeys_known:
  assumes "\<forall>c\<in>set cats. has_property (ToString c) (category_entries s)"
  shows "fst (getCategoryKeys s cats) =
     map (\<lambda>c. get_property (category_entries s) (ToString c)) cats"
proof -
  have "keeps (category_entries s) (category_entries (snd (getCategoryKeys s cats)))"
    by (rule getCategoryKeys_keeps)
  with assms have "\<forall>c\<in>set cats.
      get_property (category_entries (snd (getCategoryKeys s cats))) (ToString c) =
      get_property (category_entries s) (ToString c)"
    by (simp add: keeps_def)
  then show ?thesis
    by (subst getCategoryKeys_stable) simp
qed

lemma registered_entry:
  assumes "category_entries s = []"
    and "distinct (map ToString cats)"
    and "set (map ToString cats) \<inter> set Object_prototype_keys = {}"
    and "i < length cats"
  shows "has_property (ToString (cats ! i)) (category_entries (snd (getCategoryKeys s cats))) \<and>
     get_property (category_entries (snd (getCategoryKeys s cats))) (ToString (cats ! i)) =
       Number i"
proof -
  let ?s1 = "snd (getCategoryKeys s cats)"
  have "fst (getCategoryKeys s cats) ! i = get_property (category_entries ?s1) (ToString (cats ! i))"
    using assms(4) by (subst getCategoryKeys_stable) simp
  with distinct_keys_in_order [OF assms]
  have stored: "get_property (category_entries ?s1) (ToString (cats ! i)) = Number i"
    by simp
  have "ToString (cats ! i) \<in> set (map fst (category_entries ?s1))"
    using entries_after_calls [OF assms(1) assms(3)] assms(4) by simp
  then have "has_property (ToString (cats ! i)) (category_entries ?s1)"
    by (simp add: has_property_def)
  with stored show ?thesis
    by simp
qed

lemma numbered_layer_entry:
  assumes "i < 129"
  shows "has_property (ToString (JNum (int i))) (category_entries (state (numbered_layer cats))) \<and>
     get_property (category_entries (state (numbered_layer cats))) (ToString (JNum (int i))) =
       Number i"
proof -
  have e: "category_entries fresh_state = []"
    by (simp add: fresh_state_def category_entries_def)
  have "length number_categories = 129"
    by (simp add: number_categories_def)
  with assms registered_entry [OF e number_categories_distinct number_categories_own, of i]
  show ?thesis
    by (simp add: numbered_layer_def number_categories_nth)
qed

text \<open>
  Claim C3. \<open>maxCategories\<close> is 128, 64, 32 and 32 for category sizes 1, 2, 3 and 4. The
  uniform is computed from the whole list: when every channel group can be iterated it is
  a mask of four words, and word \<open>w\<close> is the sum of the addends \<open>2 ^ (k mod 32)\<close> of all
  categories, of channel group \<open>c\<close> and with key \<open>k\<close>, whose word index
  \<open>c * (maxCategories / 32) + k div 32\<close> is \<open>w\<close>; otherwise \<^verbatim>\<open>draw\<close> throws. With category
  size 1 and keys that are pairwise distinct, bit \<open>j\<close> of word \<open>w\<close> is set exactly when
  \<open>32 * w + j\<close> is one of the keys. A single category with key \<open>k\<close> gives the mask that
  is zero but for \<open>2 ^ (k mod 32)\<close> in the word of its index, which for category size 1 is
  bit \<open>k mod 32\<close> of word \<open>k div 32\<close>, with the masks tabulated for the keys 0, 31, 32
  and 127.
\<close>

theorem bitmask_word_and_bit:
  "maxCategories 1 = 128 \<and> maxCategories 2 = 64 \<and> maxCategories 3 = 32 \<and>
   maxCategories 4 = 32 \<and>
   snd (snd (draw l color opts)) =
     (case occurrences 0 (categoryFilters opts l) of
        None \<Rightarrow> Inl TypeError
      | Some occ \<Rightarrow>
          Inr (map (\<lambda>w. \<Sum>(c, key)\<leftarrow>zip (map fst occ)
                             (fst (getCategoryKeys (state l) (map snd occ))).
                        addend (maxCategories (categorySize opts)) w c key)
                 [0, 1, 2, 3])) \<and>
   (categorySize opts = 1 \<longrightarrow>
      snd (snd (draw l color opts)) =
        Inr (map (\<lambda>w. \<Sum>key\<leftarrow>fst (getCategoryKeys (state l) (filterCategoryList (props l))).
                      addend 128 w 0 key)
               [0, 1, 2, 3]) \<and>
      (distinct (fst (getCategoryKeys (state l) (filterCategoryList (props l)))) \<longrightarrow>
         (\<forall>w<4. \<forall>j<32.
            bit (projr (snd (snd (draw l color opts))) ! w) j \<longleftrightarrow>
              Number (32 * w + j) \<in>
                set (fst (getCategoryKeys (state l) (filterCategoryList (props l))))))) \<and>
   (fst (getCategoryKey (state l) a) = Number k \<longrightarrow>
     (categorySize opts = 1 \<and> filterCategoryList (props l) = [a] \<longrightarrow>
        snd (snd (draw l color opts)) =
          Inr (if k div 32 < 4 then [0, 0, 0, 0][k div 32 := 2 ^ (k mod 32)]
               else [0, 0, 0, 0]) \<and>
        (k = 0 \<longrightarrow> snd (snd (draw l color opts)) = Inr [1, 0, 0, 0]) \<and>
        (k = 31 \<longrightarrow> snd (snd (draw l color opts)) = Inr [2147483648, 0, 0, 0]) \<and>
        (k = 32 \<longrightarrow> snd (snd (draw l color opts)) = Inr [0, 1, 0, 0]) \<and>
        (k = 127 \<longrightarrow> snd (snd (draw l color opts)) = Inr [0, 0, 0, 2147483648]) \<and>
        (k < 128 \<longrightarrow>
           (\<forall>w<4. \<forall>j<32.
              bit (projr (snd (snd (draw l color opts))) ! w) j \<longleftrightarrow>
                w = k div 32 \<and> j = k mod 32))) \<and>
     (categorySize opts \<noteq> 1 \<and>
      filterCategoryList (props l) = replicate c (JArr []) @ [JArr [a]] \<longrightarrow>
        snd (snd (draw l color opts)) =
          Inr (if c * (maxCategories (categorySize opts) div 32) + k div 32 < 4
               then [0, 0, 0, 0]
                      [c * (maxCategories (categorySize opts) div 32) + k div 32 :=
                         2 ^ (k mod 32)]
               else [0, 0, 0, 0])))"
proof -
  let ?keys = "fst (getCategoryKeys (state l) (filterCategoryList (props l)))"
  have mc: "maxCategories 1 = 128 \<and> maxCategories 2 = 64 \<and> maxCategories 3 = 32 \<and>
      maxCategories 4 = 32"
    by (simp add: maxCategories_def)
  have whole: "snd (snd (draw l color opts)) =
     (case occurrences 0 (categoryFilters opts l) of
        None \<Rightarrow> Inl TypeError
      | Some occ \<Rightarrow>
          Inr (map (\<lambda>w. \<Sum>(c, key)\<leftarrow>zip (map fst occ)
                             (fst (getCategoryKeys (state l) (map snd occ))).
                        addend (maxCategories (categorySize opts)) w c key)
                 [0, 1, 2, 3]))"
  proof (cases "occurrences 0 (categoryFilters opts l)")
    case None
    then show ?thesis
      by (simp add: draw_not_iterable)
  next
    case (Some occ)
    then show ?thesis
      by (simp only: draw_occurrences [OF Some] mask_of_occurrences option.case)
  qed
  have flat: "snd (snd (draw l color opts)) =
      Inr (map (\<lambda>w. \<Sum>key\<leftarrow>?keys. addend 128 w 0 key) [0, 1, 2, 3])"
    if cs: "categorySize opts = 1"
  proof -
    have "occurrences 0 (categoryFilters opts l) =
        Some (map (Pair 0) (filterCategoryList (props l)))"
      using cs by (simp add: categoryFilters_def)
    from draw_occurrences [OF this, of color]
    have "snd (snd (draw l color opts)) =
        Inr (fold (\<lambda>(c, key). add_category c 128 key)
          (zip (map (\<lambda>x. 0) (filterCategoryList (props l))) ?keys) [0, 0, 0, 0])"
      using cs by (simp add: comp_def maxCategories_def)
    then show ?thesis
      by (simp only: mask_of_occurrences)
        (simp add: sum_same_group length_getCategoryKeys)
  qed
  have dbits: "bit (projr (snd (snd (draw l color opts))) ! w) j \<longleftrightarrow>
      Number (32 * w + j) \<in> set ?keys"
    if cs: "categorySize opts = 1" and d: "distinct ?keys" and w: "w < 4" and j: "j < 32"
    for w j
  proof -
    from w have "w = 0 \<or> w = 1 \<or> w = 2 \<or> w = 3"
      by arith
    then have "projr (snd (snd (draw l color opts))) ! w = (\<Sum>key\<leftarrow>?keys. addend 128 w 0 key)"
      by (auto simp: flat [OF cs])
    then show ?thesis
      by (simp only: bit_sum_distinct_keys [OF d j])
  qed
  have one: "snd (snd (draw l color opts)) =
      Inr (if k div 32 < 4 then [0, 0, 0, 0][k div 32 := 2 ^ (k mod 32)] else [0, 0, 0, 0])"
    if "fst (getCategoryKey (state l) a) = Number k" "categorySize opts = 1"
      "filterCategoryList (props l) = [a]"
    using that by (simp add: draw_one_category add_category_zero)
  have bits: "bit (projr (snd (snd (draw l color opts))) ! w) j \<longleftrightarrow>
      w = k div 32 \<and> j = k mod 32"
    if h: "fst (getCategoryKey (state l) a) = Number k" "categorySize opts = 1"
      "filterCategoryList (props l) = [a]" and k: "k < 128" and w: "w < 4" and j: "j < 32"
    for w j
  proof -
    from k have "k div 32 < 4" by simp
    with one [OF h] have "projr (snd (snd (draw l color opts))) ! w =
        (if w = k div 32 then 2 ^ (k mod 32) else 0)"
      using w by (simp add: nth_list_update zeros_nth del: list_update.simps)
    with j show ?thesis
      by (auto simp: bit_exp_iff)
  qed
  have grp: "snd (snd (draw l color opts)) =
      Inr (if c * (maxCategories (categorySize opts) div 32) + k div 32 < 4
           then [0, 0, 0, 0]
                  [c * (maxCategories (categorySize opts) div 32) + k div 32 := 2 ^ (k mod 32)]
           else [0, 0, 0, 0])"
    if "fst (getCategoryKey (state l) a) = Number k" "categorySize opts \<noteq> 1"
      "filterCategoryList (props l) = replicate c (JArr []) @ [JArr [a]]"
    using that by (simp add: draw_one_category_in_group add_category_zero)
  have single: "fst (getCategoryKey (state l) a) = Number k \<longrightarrow>
     (categorySize opts = 1 \<and> filterCategoryList (props l) = [a] \<longrightarrow>
        snd (snd (draw l color opts)) =
          Inr (if k div 32 < 4 then [0, 0, 0, 0][k div 32 := 2 ^ (k mod 32)]
               else [0, 0, 0, 0]) \<and>
        (k = 0 \<longrightarrow> snd (snd (draw l color opts)) = Inr [1, 0, 0, 0]) \<and>
        (k = 31 \<longrightarrow> snd (snd (draw l color opts)) = Inr [2147483648, 0, 0, 0]) \<and>
        (k = 32 \<longrightarrow> snd (snd (draw l color opts)) = Inr [0, 1, 0, 0]) \<and>
        (k = 127 \<longrightarrow> snd (snd (draw l color opts)) = Inr [0, 0, 0, 2147483648]) \<and>
        (k < 128 \<longrightarrow>
           (\<forall>w<4. \<forall>j<32.
              bit (projr (snd (snd (draw l color opts))) ! w) j \<longleftrightarrow>
                w = k div 32 \<and> j = k mod 32))) \<and>
     (categorySize opts \<noteq> 1 \<and>
      filterCategoryList (props l) = replicate c (JArr []) @ [JArr [a]] \<longrightarrow>
        snd (snd (draw l color opts)) =
          Inr (if c * (maxCategories (categorySize opts) div 32) + k div 32 < 4
               then [0, 0, 0, 0]
                      [c * (maxCategories (categorySize opts) div 32) + k div 32 :=
                         2 ^ (k mod 32)]
               else [0, 0, 0, 0]))"
    by (intro conjI impI allI) (use one bits grp in \<open>simp_all\<close>)
  have flatpart: "categorySize opts = 1 \<longrightarrow>
      snd (snd (draw l color opts)) =
        Inr (map (\<lambda>w. \<Sum>key\<leftarrow>?keys. addend 128 w 0 key) [0, 1, 2, 3]) \<and>
      (distinct ?keys \<longrightarrow>
         (\<forall>w<4. \<forall>j<32.
            bit (projr (snd (snd (draw l color opts))) ! w) j \<longleftrightarrow>
              Number (32 * w + j) \<in> set ?keys))"
    using flat dbits by blast
  from mc whole flatpart single show ?thesis
    by (intro conjI) blast+
qed

theorem bitmask_word_and_bit_witness:
  "snd (snd (draw (numbered_layer [JNum 0]) [] default_opts)) = Inr [1, 0, 0, 0] \<and>
   snd (snd (draw (numbered_layer [JNum 31]) [] default_opts)) = Inr [2147483648, 0, 0, 0] \<and>
   snd (snd (draw (numbered_layer [JNum 32]) [] default_opts)) = Inr [0, 1, 0, 0] \<and>
   snd (snd (draw (numbered_layer [JNum 127]) [] default_opts)) = Inr [0, 0, 0, 2147483648] \<and>
   bit (projr (snd (snd (draw (numbered_layer [JNum 127]) [] default_opts))) ! 3) 31 \<and>
   snd (snd (draw (numbered_layer [JArr [], JArr [JNum 33]]) [] two_channel_opts)) =
     Inr [0, 0, 0, 2] \<and>
   snd (snd (draw (new_layer [JArr [JStr ''a''], JArr [JStr ''b'']]) [] two_channel_opts)) =
     Inr [1, 0, 2, 0] \<and>
   snd (snd (draw (numbered_layer [JNum 0, JNum 31, JNum 32, JNum 127]) [] default_opts)) =
     Inr [2147483649, 1, 0, 2147483648] \<and>
   bit (projr (snd (snd (draw (numbered_layer [JNum 0, JNum 31, JNum 32, JNum 127]) []
     default_opts))) ! 1) 0"
proof -
  have p: "filterCategoryList (props (numbered_layer cats)) = cats" for cats
    by (simp add: numbered_layer_def)
  have o1: "categorySize default_opts = 1" and o2: "categorySize two_channel_opts \<noteq> 1"
    and o3: "maxCategories (categorySize two_channel_opts) = 64"
    by (simp_all add: default_opts_def two_channel_opts_def maxCategories_def)
  have tab: "(k = 0 \<longrightarrow> snd (snd (draw (numbered_layer [a]) [] default_opts)) = Inr [1, 0, 0, 0]) \<and>
      (k = 31 \<longrightarrow> snd (snd (draw (numbered_layer [a]) [] default_opts)) =
         Inr [2147483648, 0, 0, 0]) \<and>
      (k = 32 \<longrightarrow> snd (snd (draw (numbered_layer [a]) [] default_opts)) = Inr [0, 1, 0, 0]) \<and>
      (k = 127 \<longrightarrow> snd (snd (draw (numbered_layer [a]) [] default_opts)) =
         Inr [0, 0, 0, 2147483648]) \<and>
      (k < 128 \<longrightarrow>
         (\<forall>w<4. \<forall>j<32.
            bit (projr (snd (snd (draw (numbered_layer [a]) [] default_opts))) ! w) j \<longleftrightarrow>
              w = k div 32 \<and> j = k mod 32))"
    if "fst (getCategoryKey (state (numbered_layer [a])) a) = Number k" for a k
    using that o1 p [of "[a]"]
      bitmask_word_and_bit [where l = "numbered_layer [a]" and color = "[]"
        and opts = default_opts and a = a and k = k]
    by blast
  have a: "snd (snd (draw (numbered_layer [JNum 0]) [] default_opts)) = Inr [1, 0, 0, 0]"
    using tab [of "JNum 0" 0] numbered_layer_key [of 0] by simp
  have b: "snd (snd (draw (numbered_layer [JNum 31]) [] default_opts)) =
      Inr [2147483648, 0, 0, 0]"
    using tab [of "JNum 31" 31] numbered_layer_key [of 31] by simp
  have c: "snd (snd (draw (numbered_layer [JNum 32]) [] default_opts)) = Inr [0, 1, 0, 0]"
    using tab [of "JNum 32" 32] numbered_layer_key [of 32] by simp
  have d: "snd (snd (draw (numbered_layer [JNum 127]) [] default_opts)) =
      Inr [0, 0, 0, 2147483648]"
    using tab [of "JNum 127" 127] numbered_layer_key [of 127] by simp
  have e: "bit (projr (snd (snd (draw (numbered_layer [JNum 127]) [] default_opts))) ! 3) 31"
    using tab [of "JNum 127" 127] numbered_layer_key [of 127] by simp
  have f: "snd (snd (draw (numbered_layer [JArr [], JArr [JNum 33]]) [] two_channel_opts)) =
      Inr [0, 0, 0, 2]"
  proof -
    have g: "filterCategoryList (props (numbered_layer [JArr [], JArr [JNum 33]])) =
        replicate 1 (JArr []) @ [JArr [JNum 33]]"
      by (simp add: numbered_layer_def)
    have k33: "fst (getCategoryKey (state (numbered_layer [JArr [], JArr [JNum 33]]))
        (JNum 33)) = Number 33"
      using numbered_layer_key [of 33] by simp
    from bitmask_word_and_bit [where l = "numbered_layer [JArr [], JArr [JNum 33]]"
        and color = "[]" and opts = two_channel_opts and a = "JNum 33" and k = 33 and c = 1]
      k33 o2 g
    have "snd (snd (draw (numbered_layer [JArr [], JArr [JNum 33]]) [] two_channel_opts)) =
        Inr (if 1 * (maxCategories (categorySize two_channel_opts) div 32) + 33 div 32 < 4
             then [0, 0, 0, 0]
                    [1 * (maxCategories (categorySize two_channel_opts) div 32) + 33 div 32 :=
                       2 ^ (33 mod 32)]
             else [0, 0, 0, 0])"
      by blast
    then show ?thesis
      by (simp add: o3)
  qed
  have g: "snd (snd (draw (new_layer [JArr [JStr ''a''], JArr [JStr ''b'']]) []
      two_channel_opts)) = Inr [1, 0, 2, 0]"
  proof -
    let ?l = "new_layer [JArr [JStr ''a''], JArr [JStr ''b'']]"
    have occ: "occurrences 0 (categoryFilters two_channel_opts ?l) =
        Some [(0, JStr ''a''), (1, JStr ''b'')]"
      by (simp add: categoryFilters_def two_channel_opts_def new_layer_def)
    have keys: "fst (getCategoryKeys (state ?l) [JStr ''a'', JStr ''b'']) =
        [Number 0, Number 1]"
      by code_simp
    from bitmask_word_and_bit [where l = ?l and color = "[]" and opts = two_channel_opts]
    have "snd (snd (draw ?l [] two_channel_opts)) =
       (case occurrences 0 (categoryFilters two_channel_opts ?l) of
          None \<Rightarrow> Inl TypeError
        | Some occ \<Rightarrow>
            Inr (map (\<lambda>w. \<Sum>(c, key)\<leftarrow>zip (map fst occ)
                               (fst (getCategoryKeys (state ?l) (map snd occ))).
                          addend (maxCategories (categorySize two_channel_opts)) w c key)
                   [0, 1, 2, 3]))"
      by blast
    then show ?thesis
      by (simp only: occ option.case list.map fst_conv snd_conv keys o3)
        (simp add: addend_def)
  qed
  let ?l4 = "numbered_layer [JNum 0, JNum 31, JNum 32, JNum 127]"
  have keys4: "fst (getCategoryKeys (state ?l4) (filterCategoryList (props ?l4))) =
      [Number 0, Number 31, Number 32, Number 127]"
  proof -
    have "\<forall>c\<in>set [JNum 0, JNum 31, JNum 32, JNum 127].
        has_property (ToString c) (category_entries (state ?l4))"
      using numbered_layer_entry [of 0] numbered_layer_entry [of 31]
        numbered_layer_entry [of 32] numbered_layer_entry [of 127]
      by simp
    from getCategoryKeys_known [OF this] show ?thesis
      using numbered_layer_entry [of 0 "[JNum 0, JNum 31, JNum 32, JNum 127]"]
        numbered_layer_entry [of 31 "[JNum 0, JNum 31, JNum 32, JNum 127]"]
        numbered_layer_entry [of 32 "[JNum 0, JNum 31, JNum 32, JNum 127]"]
        numbered_layer_entry [of 127 "[JNum 0, JNum 31, JNum 32, JNum 127]"]
      by (simp add: p del: ToString.simps)
  qed
  from bitmask_word_and_bit [where l = ?l4 and color = "[]" and opts = default_opts] o1
  have flat: "snd (snd (draw ?l4 [] default_opts)) =
        Inr (map (\<lambda>w. \<Sum>key\<leftarrow>fst (getCategoryKeys (state ?l4) (filterCategoryList (props ?l4))).
                      addend 128 w 0 key)
               [0, 1, 2, 3])"
    and dist: "distinct (fst (getCategoryKeys (state ?l4) (filterCategoryList (props ?l4)))) \<longrightarrow>
         (\<forall>w<4. \<forall>j<32.
            bit (projr (snd (snd (draw ?l4 [] default_opts))) ! w) j \<longleftrightarrow>
              Number (32 * w + j) \<in>
                set (fst (getCategoryKeys (state ?l4) (filterCategoryList (props ?l4)))))"
    by blast+
  have h: "snd (snd (draw ?l4 [] default_opts)) = Inr [2147483649, 1, 0, 2147483648]"
    by (simp only: flat keys4) (simp add: addend_def)
  have i: "bit (projr (snd (snd (draw ?l4 [] default_opts))) ! 1) 0"
    using dist by (simp only: keys4) simp
  from a b c d e f g h i show ?thesis
    by simp
qed









end
